theory Spec2Isabelle
  imports Main
begin

section \<open>Byte strings of the Python runtime\<close>

text \<open>
  The module \<^verbatim>\<open>twitter/common/config/properties.py\<close> reads and writes the
  \<^verbatim>\<open>java.util.Properties\<close> line format. It is Python 2 code working on byte strings
  (\<^verbatim>\<open>str\<close>), so a string is a \<^typ>\<open>string\<close> (a list of 8-bit characters) and the
  runtime functions it calls are modelled as they behave on byte strings:
  \<^item> whitespace, for \<^verbatim>\<open>strip\<close>, \<^verbatim>\<open>rstrip\<close> and the regular expression class
    \<^verbatim>\<open>\s\<close>, is space, tab, line feed, vertical tab, form feed and carriage return;
  \<^item> \<^verbatim>\<open>splitlines\<close> breaks a text at line feed, carriage return and the pair
    carriage return + line feed, and yields no empty last line.

  \<^verbatim>\<open>load\<close> takes text strings as well (\<^verbatim>\<open>unicode\<close>, and every string of
  Python 3). On those the runtime has more whitespace (the characters 0x1C to 0x1F,
  0x85, 0xA0 and others beyond one byte) and more line breaks (vertical tab, form
  feed, 0x1C to 0x1E, 0x85 and two beyond one byte). The general statements below
  take \<open>isspace\<close> and \<open>splitlines\<close> as they come, without unfolding which characters
  they hold, except that the backslash is no whitespace; the evaluated examples are
  made of letters, digits, \<open>=\<close>, \<open>:\<close>, \<open>#\<close>, \<open>!\<close>, the backslash, the space and the
  line feed, on which byte strings and text strings agree.
\<close>

definition backslash :: char where
  "backslash = CHR 0x5C"

definition isspace :: "char \<Rightarrow> bool" where
  "isspace c \<longleftrightarrow> c \<in> {CHR 0x20, CHR 0x09, CHR 0x0A, CHR 0x0B, CHR 0x0C, CHR 0x0D}"

definition lstrip :: "string \<Rightarrow> string" where
  "lstrip s = dropWhile isspace s"

definition rstrip :: "string \<Rightarrow> string" where
  "rstrip s = rev (dropWhile isspace (rev s))"

definition strip :: "string \<Rightarrow> string" where
  "strip s = rstrip (lstrip s)"

definition startswith :: "string \<Rightarrow> char \<Rightarrow> bool" where
  "startswith s c = (case s of [] \<Rightarrow> False | x # _ \<Rightarrow> x = c)"

definition endswith :: "string \<Rightarrow> char \<Rightarrow> bool" where
  "endswith s c = (case rev s of [] \<Rightarrow> False | x # _ \<Rightarrow> x = c)"

text \<open>\<^verbatim>\<open>s.find(c)\<close>: the index of the first \<open>c\<close> in \<open>s\<close>, or \<open>-1\<close>.\<close>

fun find_from :: "char \<Rightarrow> nat \<Rightarrow> string \<Rightarrow> int" where
  "find_from c i [] = - 1"
| "find_from c i (x # xs) = (if x = c then int i else find_from c (Suc i) xs)"

definition str_find :: "string \<Rightarrow> char \<Rightarrow> int" where
  "str_find s c = find_from c 0 s"

text \<open>\<^verbatim>\<open>contents.splitlines()\<close>; \<open>cur\<close> is the line being collected.\<close>

fun splitlines_from :: "string \<Rightarrow> string \<Rightarrow> string list" where
  "splitlines_from cur [] = (if cur = [] then [] else [cur])"
| "splitlines_from cur (c # s) =
     (if c = CHR 0x0A then cur # splitlines_from [] s
      else if c = CHR 0x0D then
        (case s of
           [] \<Rightarrow> [cur]
         | d # s' \<Rightarrow> if d = CHR 0x0A then cur # splitlines_from [] s'
                     else cur # splitlines_from [] s)
      else splitlines_from (cur @ [c]) s)"

definition splitlines :: "string \<Rightarrow> string list" where
  "splitlines s = splitlines_from [] s"


section \<open>The regular expressions\<close>

text \<open>
  The character class \<^verbatim>\<open>[:=\s]\<close> (written \<^verbatim>\<open>[=:\s]\<close> in \<^verbatim>\<open>escape\<close>).
\<close>

definition sep_or_space :: "char \<Rightarrow> bool" where
  "sep_or_space c \<longleftrightarrow> c = CHR ''='' \<or> c = CHR '':'' \<or> isspace c"

text \<open>
  \<^verbatim>\<open>_EXPLICIT_KV_SEP = re.compile(r'(?<!\\)[=:]')\<close> and its \<^verbatim>\<open>search\<close>: the
  pattern is tried at each position from the left; it matches one character \<open>=\<close> or
  \<open>:\<close> where the look-behind finds no backslash just before. \<open>esc\<close> tells whether the
  character before the current position is a backslash, \<open>i\<close> is the current position;
  the result is \<^verbatim>\<open>match.start()\<close> (\<^verbatim>\<open>match.end()\<close> is one more), \<open>None\<close> for no match.
\<close>

fun kv_sep_search_from :: "bool \<Rightarrow> nat \<Rightarrow> string \<Rightarrow> nat option" where
  "kv_sep_search_from esc i [] = None"
| "kv_sep_search_from esc i (c # s) =
     (if (c = CHR ''='' \<or> c = CHR '':'') \<and> \<not> esc then Some i
      else kv_sep_search_from (c = backslash) (Suc i) s)"

definition EXPLICIT_KV_SEP_search :: "string \<Rightarrow> nat option" where
  "EXPLICIT_KV_SEP_search line = kv_sep_search_from False 0 line"

text \<open>
  \<^verbatim>\<open>re.sub(r'\\([:=\s])', r'\1', s)\<close>: scanning from the left, each backslash that
  is followed by a character of the class is dropped and the scan goes on after that
  character (matches do not overlap).
\<close>

fun sub_unescape :: "string \<Rightarrow> string" where
  "sub_unescape (c # d # s) =
     (if c = backslash \<and> sep_or_space d then d # sub_unescape s
      else c # sub_unescape (d # s))"
| "sub_unescape s = s"

text \<open>
  \<^verbatim>\<open>re.sub(r'([=:\s])', r'\\\1', s)\<close>: each character of the class is replaced by a
  backslash and itself.
\<close>

fun sub_escape :: "string \<Rightarrow> string" where
  "sub_escape [] = []"
| "sub_escape (c # s) =
     (if sep_or_space c then backslash # c # sub_escape s else c # sub_escape s)"


section \<open>Loading\<close>

text \<open>
  \<^verbatim>\<open>coalesce_lines\<close> is a generator; the model returns the list of the strings it
  yields. The first argument is the local variable \<^verbatim>\<open>buffer\<close>. When \<^verbatim>\<open>next\<close>
  raises \<^verbatim>\<open>StopIteration\<close> the generator ends, whatever the buffer holds.
\<close>

fun coalesce_from :: "string \<Rightarrow> string list \<Rightarrow> string list" where
  "coalesce_from buffer [] = []"
| "coalesce_from buffer (line # lines) =
     (if endswith (strip line) backslash
      then coalesce_from (buffer @ butlast (strip line)) lines
      else (if buffer \<noteq> [] then buffer @ rstrip line else strip line)
             # coalesce_from [] lines)"

definition coalesce_lines :: "string list \<Rightarrow> string list" where
  "coalesce_lines lines = coalesce_from [] lines"

definition normalize_atom :: "string \<Rightarrow> string" where
  "normalize_atom atom = sub_unescape (strip atom)"

text \<open>\<^verbatim>\<open>parse_line\<close> returns a pair, or \<^verbatim>\<open>None\<close> by falling off its end.\<close>

definition parse_line :: "string \<Rightarrow> (string \<times> string) option" where
  "parse_line line =
     (if line \<noteq> [] \<and> \<not> (startswith line (CHR ''#'') \<or> startswith line (CHR ''!''))
      then
        (case EXPLICIT_KV_SEP_search line of
           Some p \<Rightarrow> Some (normalize_atom (take p line), normalize_atom (drop (Suc p) line))
         | None \<Rightarrow>
             (let space_sep = str_find line (CHR '' '')
              in if space_sep = - 1 then Some (normalize_atom line, [])
                 else Some (normalize_atom (take (nat space_sep) line),
                            normalize_atom (drop (nat space_sep) line))))
      else None)"

text \<open>
  Modelled from the spec: \<^verbatim>\<open>twitter.common.collections.OrderedDict\<close>, which is
  imported by the module and is not among the sources. The spec's PropertyMap is an
  ordered mapping with unique keys, iterated in insertion order, where storing under
  an existing key updates the value in place and does not move the key. It is the
  list of its items; \<open>setitem\<close> is \<^verbatim>\<open>props[key] = value\<close>.
\<close>

type_synonym PropertyMap = "(string \<times> string) list"

fun setitem :: "PropertyMap \<Rightarrow> string \<Rightarrow> string \<Rightarrow> PropertyMap" where
  "setitem [] key val = [(key, val)]"
| "setitem ((k, v) # props) key val =
     (if k = key then (k, val) # props else (k, v) # setitem props key val)"

text \<open>The loop of \<^verbatim>\<open>_parse\<close> over the logical lines, and \<^verbatim>\<open>_parse\<close>.\<close>

fun parse_loop :: "PropertyMap \<Rightarrow> string list \<Rightarrow> PropertyMap" where
  "parse_loop props [] = props"
| "parse_loop props (line # lines) =
     (case parse_line line of
        Some (key, val) \<Rightarrow> parse_loop (setitem props key val) lines
      | None \<Rightarrow> parse_loop props lines)"

definition parse :: "string list \<Rightarrow> PropertyMap" where
  "parse lines = parse_loop [] (coalesce_lines lines)"

text \<open>
  The argument of \<^verbatim>\<open>load\<close> is any Python object; the record holds what
  \<^verbatim>\<open>load\<close> observes of it: whether it has an attribute \<^verbatim>\<open>read\<close>, whether
  that attribute is callable, the text that \<^verbatim>\<open>data.read()\<close> returns, whether the
  object is a string and which. The string test is
  \<^verbatim>\<open>isinstance(data, Compatibility.string)\<close>; \<^verbatim>\<open>twitter.common.lang.Compatibility\<close>
  is not among the sources, so the outcome of the test is a field of the record.
\<close>

datatype error = TypeError

record source =
  has_read :: bool
  read_callable :: bool
  read_result :: string
  src_is_string :: bool
  src_string :: string

definition load :: "source \<Rightarrow> error + PropertyMap" where
  "load data =
     (if has_read data \<and> read_callable data then Inr (parse (splitlines (read_result data)))
      else if src_is_string data then Inr (parse (splitlines (src_string data)))
      else Inl TypeError)"

text \<open>A string given to \<^verbatim>\<open>load\<close>.\<close>

definition text_source :: "string \<Rightarrow> source" where
  "text_source s =
     \<lparr>has_read = False, read_callable = False, read_result = [],
      src_is_string = True, src_string = s\<rparr>"


section \<open>Dumping\<close>

text \<open>
  \<^verbatim>\<open>dump\<close> acts on the outside world only: the model returns the calls it makes
  on the runtime, in order, and the exception it raises, if any. \<open>Open path mode\<close> is
  \<^verbatim>\<open>open(path, mode)\<close> entering the \<^verbatim>\<open>with\<close> block, \<open>Write s\<close> is
  \<^verbatim>\<open>out.write(s)\<close>, \<open>Close\<close> is the end of the \<^verbatim>\<open>with\<close> block. The calls are
  taken to succeed. The record holds what \<^verbatim>\<open>dump\<close> observes of its destination;
  \<open>write_props\<close> is the inner function \<^verbatim>\<open>write\<close>, and \<^verbatim>\<open>str\<close> of a key or
  value, which is a string already, is left out.
\<close>

datatype io_event = Open string string | Write string | Close

record destination =
  has_write :: bool
  write_callable :: bool
  dst_is_string :: bool
  dst_string :: string

definition escape :: "string \<Rightarrow> string" where
  "escape token = sub_escape token"

fun write_props :: "PropertyMap \<Rightarrow> io_event list" where
  "write_props [] = []"
| "write_props ((k, v) # props) =
     Write (escape k @ ''='' @ escape v @ [CHR 0x0A]) # write_props props"

definition dump :: "PropertyMap \<Rightarrow> destination \<Rightarrow> io_event list \<times> error option" where
  "dump props output =
     (if has_write output \<and> write_callable output then (write_props props, None)
      else if dst_is_string output
        then ([Open (dst_string output) ''w+a''] @ write_props props @ [Close], None)
      else ([], Some TypeError))"

text \<open>
  A writable object that collects what is written to it (a \<^verbatim>\<open>StringIO\<close>), and the
  text it holds after the calls.
\<close>

definition string_io :: destination where
  "string_io = \<lparr>has_write = True, write_callable = True, dst_is_string = False, dst_string = []\<rparr>"

fun written :: "io_event list \<Rightarrow> string" where
  "written [] = []"
| "written (Write s # es) = s @ written es"
| "written (e # es) = written es"

definition dump_to_string :: "PropertyMap \<Rightarrow> string" where
  "dump_to_string props = written (fst (dump props string_io))"


section \<open>The runtime under \<open>dump\<close>\<close>

text \<open>
  What \<^verbatim>\<open>open(path, mode)\<close> makes of a mode string, and what happens when a call of
  \<^verbatim>\<open>out.write\<close> raises, is the runtime's doing. The model follows two runtimes:
  Python 2 on the GNU C library, for which the module was written, and Python 3.
  Of a mode string it returns the access that \<^verbatim>\<open>open\<close> selects (reading an
  existing file, truncating or creating it, appending to it or creating it, creating
  it anew) and whether the file is also opened for updating, or the error raised.
  \<^item> Python 3 (\<^verbatim>\<open>io.open\<close>, from release 3.11): the letters are among
    \<^verbatim>\<open>axrwb+t\<close>, none is repeated, \<^verbatim>\<open>t\<close> and \<^verbatim>\<open>b\<close> do not come together, and
    exactly one of \<^verbatim>\<open>x\<close>, \<^verbatim>\<open>r\<close>, \<^verbatim>\<open>w\<close>, \<^verbatim>\<open>a\<close> is there; anything else raises
    \<^verbatim>\<open>ValueError\<close>.
  \<^item> Python 2 (the \<^verbatim>\<open>file\<close> object): a \<^verbatim>\<open>U\<close> is taken out and makes the mode a
    reading one, which \<^verbatim>\<open>w\<close> or \<^verbatim>\<open>a\<close> as the first remaining letter contradicts;
    without \<^verbatim>\<open>U\<close> the first letter is \<^verbatim>\<open>r\<close>, \<^verbatim>\<open>w\<close> or \<^verbatim>\<open>a\<close>, or
    \<^verbatim>\<open>ValueError\<close> is raised. The string then goes to \<^verbatim>\<open>fopen\<close>, which takes the
    access from the first letter, takes a \<^verbatim>\<open>+\<close> among the letters that follow as
    updating (it looks at the first few of them only, which the model does not
    limit) and passes over the letters it does not know.
\<close>

datatype runtime = Python2 | Python3

datatype runtime_error = ValueError | IOError

datatype access = Reading | Truncating | Appending | Creating

definition access_of :: "char \<Rightarrow> access" where
  "access_of c =
     (if c = CHR ''r'' then Reading
      else if c = CHR ''w'' then Truncating
      else if c = CHR ''a'' then Appending
      else Creating)"

definition open_mode_py3 :: "string \<Rightarrow> runtime_error + access \<times> bool" where
  "open_mode_py3 mode =
     (if list_all (\<lambda>c. c \<in> set ''axrwb+t'') mode \<and> distinct mode \<and>
         \<not> (CHR ''t'' \<in> set mode \<and> CHR ''b'' \<in> set mode)
      then
        (case filter (\<lambda>c. c \<in> set ''xrwa'') mode of
           [c] \<Rightarrow> Inr (access_of c, CHR ''+'' \<in> set mode)
         | _ \<Rightarrow> Inl ValueError)
      else Inl ValueError)"

definition open_mode_py2 :: "string \<Rightarrow> runtime_error + access \<times> bool" where
  "open_mode_py2 mode =
     (if mode = [] then Inl ValueError
      else if CHR ''U'' \<in> set mode then
        (case remove1 (CHR ''U'') mode of
           [] \<Rightarrow> Inr (Reading, False)
         | c # rest \<Rightarrow>
             if c = CHR ''w'' \<or> c = CHR ''a'' then Inl ValueError
             else Inr (Reading, CHR ''+'' \<in> set (c # rest)))
      else
        (case mode of
           [] \<Rightarrow> Inl ValueError
         | c # rest \<Rightarrow>
             if c = CHR ''r'' \<or> c = CHR ''w'' \<or> c = CHR ''a''
             then Inr (access_of c, CHR ''+'' \<in> set rest)
             else Inl ValueError))"

definition open_mode :: "runtime \<Rightarrow> string \<Rightarrow> runtime_error + access \<times> bool" where
  "open_mode rt mode = (case rt of Python2 \<Rightarrow> open_mode_py2 mode | Python3 \<Rightarrow> open_mode_py3 mode)"

text \<open>
  The loop of the inner function \<^verbatim>\<open>write\<close> when a call of \<^verbatim>\<open>out.write\<close> may raise.
  \<open>budget\<close> is the number of calls the runtime carries out before one raises
  \<^verbatim>\<open>IOError\<close> (a full disk, a closed pipe); with \<open>None\<close> no call raises. The result
  is the calls carried out and the error that ended the loop, if any.
\<close>

fun write_props_until :: "nat option \<Rightarrow> PropertyMap \<Rightarrow> io_event list \<times> runtime_error option" where
  "write_props_until budget [] = ([], None)"
| "write_props_until budget ((k, v) # props) =
     (if budget = Some 0 then ([], Some IOError)
      else
        (case write_props_until (map_option (\<lambda>n. n - 1) budget) props of
           (es, r) \<Rightarrow> (Write (escape k @ ''='' @ escape v @ [CHR 0x0A]) # es, r)))"

text \<open>
  \<^verbatim>\<open>dump\<close> on such a runtime. The result is the calls carried out, in order, and
  the exception that leaves \<^verbatim>\<open>dump\<close>, if any: its own \<^verbatim>\<open>TypeError\<close> on the left,
  one of the runtime on the right. When \<^verbatim>\<open>open\<close> raises, the \<^verbatim>\<open>with\<close> block is not
  entered and there is nothing to close; when the block is left, by its end or by an
  exception of \<^verbatim>\<open>write\<close>, the \<^verbatim>\<open>with\<close> statement closes the file and the exception
  goes on to the caller. The model \<open>dump\<close> above is this one on a runtime that takes
  the mode string and carries out every write.
\<close>

definition dump_with_runtime ::
  "runtime \<Rightarrow> nat option \<Rightarrow> PropertyMap \<Rightarrow> destination
     \<Rightarrow> io_event list \<times> (error + runtime_error) option" where
  "dump_with_runtime rt budget props output =
     (if has_write output \<and> write_callable output then
        (case write_props_until budget props of (es, r) \<Rightarrow> (es, map_option Inr r))
      else if dst_is_string output then
        (case open_mode rt ''w+a'' of
           Inl e \<Rightarrow> ([], Some (Inr e))
         | Inr _ \<Rightarrow>
             (case write_props_until budget props of
                (es, r) \<Rightarrow>
                  ([Open (dst_string output) ''w+a''] @ es @ [Close], map_option Inr r)))
      else ([], Some (Inl TypeError)))"

text \<open>A path given to \<^verbatim>\<open>dump\<close>.\<close>

definition path_destination :: "string \<Rightarrow> destination" where
  "path_destination p =
     \<lparr>has_write = False, write_callable = False, dst_is_string = True, dst_string = p\<rparr>"


section \<open>Notions of the specification\<close>

text \<open>
  An unescaped separator, in the specification's words: a character \<open>=\<close> or \<open>:\<close> that
  is not immediately preceded by a backslash.
\<close>

definition unescaped_sep :: "string \<Rightarrow> nat \<Rightarrow> bool" where
  "unescaped_sep line p \<longleftrightarrow>
     p < length line \<and> (line ! p = CHR ''='' \<or> line ! p = CHR '':'') \<and>
     (p = 0 \<or> line ! (p - 1) \<noteq> backslash)"

text \<open>
  The same for a scan that starts inside a line: \<open>esc\<close> tells whether the character
  before the first one is a backslash.
\<close>

definition sep_match :: "bool \<Rightarrow> string \<Rightarrow> nat \<Rightarrow> bool" where
  "sep_match esc s n \<longleftrightarrow>
     n < length s \<and> (s ! n = CHR ''='' \<or> s ! n = CHR '':'') \<and>
     (if n = 0 then \<not> esc else s ! (n - 1) \<noteq> backslash)"


section \<open>The separator search\<close>

lemma sep_match_Cons_Suc:
  "sep_match esc (c # s) (Suc m) = sep_match (c = backslash) s m"
  by (cases m) (auto simp: sep_match_def)

lemma sep_match_Cons_0:
  "sep_match esc (c # s) 0 \<longleftrightarrow> (c = CHR ''='' \<or> c = CHR '':'') \<and> \<not> esc"
  by (auto simp: sep_match_def)

lemma kv_sep_search_from_first:
  "sep_match esc s n \<Longrightarrow> (\<forall>j<n. \<not> sep_match esc s j) \<Longrightarrow>
   kv_sep_search_from esc i s = Some (i + n)"
proof (induction s arbitrary: esc i n)
  case Nil
  then show ?case by (simp add: sep_match_def)
next
  case (Cons c s)
  show ?case
  proof (cases n)
    case 0
    with Cons.prems(1) show ?thesis by (simp add: sep_match_Cons_0)
  next
    case (Suc m)
    with Cons.prems(2) have no0: "\<not> sep_match esc (c # s) 0" by blast
    from Suc Cons.prems(1) have m: "sep_match (c = backslash) s m"
      by (simp add: sep_match_Cons_Suc)
    have "\<forall>j<m. \<not> sep_match (c = backslash) s j"
    proof (intro allI impI)
      fix j assume "j < m"
      then have "Suc j < n" using Suc by simp
      with Cons.prems(2) have "\<not> sep_match esc (c # s) (Suc j)" by blast
      then show "\<not> sep_match (c = backslash) s j" by (simp add: sep_match_Cons_Suc)
    qed
    from Cons.IH[OF m this, of "Suc i"] no0 Suc show ?thesis
      by (simp add: sep_match_Cons_0)
  qed
qed

lemma kv_sep_search_from_None:
  "(\<forall>j. \<not> sep_match esc s j) \<Longrightarrow> kv_sep_search_from esc i s = None"
proof (induction s arbitrary: esc i)
  case Nil
  then show ?case by simp
next
  case (Cons c s)
  from Cons.prems have no0: "\<not> sep_match esc (c # s) 0" by blast
  have "\<forall>j. \<not> sep_match (c = backslash) s j"
  proof
    fix j
    from Cons.prems have "\<not> sep_match esc (c # s) (Suc j)" by blast
    then show "\<not> sep_match (c = backslash) s j" by (simp add: sep_match_Cons_Suc)
  qed
  from Cons.IH[OF this, of "Suc i"] no0 show ?case
    by (simp add: sep_match_Cons_0)
qed

lemma unescaped_sep_match: "unescaped_sep line p = sep_match False line p"
  by (auto simp: unescaped_sep_def sep_match_def)

lemma search_first:
  "unescaped_sep line p \<Longrightarrow> (\<forall>j<p. \<not> unescaped_sep line j) \<Longrightarrow>
   EXPLICIT_KV_SEP_search line = Some p"
  using kv_sep_search_from_first[of False line p 0]
  by (simp add: EXPLICIT_KV_SEP_search_def unescaped_sep_match)

lemma search_None:
  "(\<forall>j. \<not> unescaped_sep line j) \<Longrightarrow> EXPLICIT_KV_SEP_search line = None"
  using kv_sep_search_from_None[of False line 0]
  by (simp add: EXPLICIT_KV_SEP_search_def unescaped_sep_match)

lemma kv_sep_search_from_None_iff:
  "kv_sep_search_from esc i s = None \<longleftrightarrow> (\<forall>j. \<not> sep_match esc s j)"
proof
  show "kv_sep_search_from esc i s = None \<Longrightarrow> \<forall>j. \<not> sep_match esc s j"
  proof (induction s arbitrary: esc i)
    case Nil
    show ?case by (simp add: sep_match_def)
  next
    case (Cons c s)
    from Cons.prems have no0: "\<not> sep_match esc (c # s) 0"
      by (auto simp: sep_match_Cons_0 split: if_splits)
    from Cons.prems have "kv_sep_search_from (c = backslash) (Suc i) s = None"
      by (auto split: if_splits)
    then have ih: "\<forall>j. \<not> sep_match (c = backslash) s j" by (rule Cons.IH)
    show ?case
    proof
      fix j
      show "\<not> sep_match esc (c # s) j"
        using no0 ih by (cases j) (simp_all add: sep_match_Cons_Suc)
    qed
  qed
next
  show "\<forall>j. \<not> sep_match esc s j \<Longrightarrow> kv_sep_search_from esc i s = None"
    by (rule kv_sep_search_from_None)
qed

lemma search_None_iff:
  "EXPLICIT_KV_SEP_search line = None \<longleftrightarrow> (\<forall>j. \<not> unescaped_sep line j)"
  by (simp add: EXPLICIT_KV_SEP_search_def unescaped_sep_match kv_sep_search_from_None_iff)

lemma find_from_first:
  "n < length s \<Longrightarrow> s ! n = c \<Longrightarrow> (\<forall>j<n. s ! j \<noteq> c) \<Longrightarrow> find_from c i s = int (i + n)"
proof (induction s arbitrary: i n)
  case Nil
  then show ?case by simp
next
  case (Cons x s)
  show ?case
  proof (cases n)
    case 0
    with Cons.prems show ?thesis by simp
  next
    case (Suc m)
    with Cons.prems have x: "x \<noteq> c" by auto
    from Suc Cons.prems have "m < length s" "s ! m = c" "\<forall>j<m. s ! j \<noteq> c" by auto
    from Cons.IH[OF this, of "Suc i"] x Suc show ?thesis by simp
  qed
qed

lemma find_from_absent: "c \<notin> set s \<Longrightarrow> find_from c i s = - 1"
  by (induction s arbitrary: i) auto


section \<open>The line coalescer\<close>

lemma coalesce_from_continuations:
  "(\<forall>c\<in>set cs. endswith (strip c) backslash) \<Longrightarrow>
   coalesce_from buffer (cs @ rest) =
     coalesce_from (buffer @ concat (map (\<lambda>c. butlast (strip c)) cs)) rest"
  by (induction cs arbitrary: buffer) auto

lemma coalesce_from_pending:
  "(\<forall>c\<in>set cs. endswith (strip c) backslash) \<Longrightarrow> coalesce_from buffer cs = []"
  using coalesce_from_continuations[of cs buffer "[]"] by simp

lemma coalesce_from_append_pending:
  "(\<forall>c\<in>set cs. endswith (strip c) backslash) \<Longrightarrow>
   coalesce_from buffer (ls @ cs) = coalesce_from buffer ls"
  by (induction ls arbitrary: buffer) (auto simp: coalesce_from_pending)

lemma coalesce_from_append:
  "ls \<noteq> [] \<Longrightarrow> \<not> endswith (strip (last ls)) backslash \<Longrightarrow>
   coalesce_from buffer (ls @ xs) = coalesce_from buffer ls @ coalesce_from [] xs"
proof (induction ls arbitrary: buffer)
  case Nil
  then show ?case by simp
next
  case (Cons l ls)
  show ?case
  proof (cases "ls = []")
    case True
    with Cons.prems show ?thesis by simp
  next
    case False
    with Cons.prems have "\<not> endswith (strip (last ls)) backslash" by simp
    from Cons.IH[OF False this] show ?thesis by simp
  qed
qed


section \<open>The ordered mapping\<close>

lemma setitem_keys:
  "map fst (setitem props k v) =
     (if k \<in> set (map fst props) then map fst props else map fst props @ [k])"
  by (induction props k v rule: setitem.induct) auto

lemma setitem_distinct:
  "distinct (map fst props) \<Longrightarrow> distinct (map fst (setitem props k v))"
  by (simp add: setitem_keys)

lemma map_of_setitem: "map_of (setitem props k v) = (map_of props)(k \<mapsto> v)"
  by (induction props k v rule: setitem.induct) auto

lemma parse_loop_distinct:
  "distinct (map fst props) \<Longrightarrow> distinct (map fst (parse_loop props ls))"
  by (induction ls arbitrary: props) (auto simp: setitem_distinct split: option.splits)

lemma remdups_skip_seen:
  "k \<in> set ys \<Longrightarrow> remdups (xs @ k # ys) = remdups (xs @ ys)"
  by (induction xs) auto

lemma parse_loop_keys:
  assumes "distinct (map fst props)"
  shows "map fst (parse_loop props ls) =
     rev (remdups (rev (map fst props @ map fst (List.map_filter parse_line ls))))"
  using assms
proof (induction ls arbitrary: props)
  case Nil
  then show ?case by (simp add: List.map_filter_simps distinct_remdups_id)
next
  case (Cons l ls)
  show ?case
  proof (cases "parse_line l")
    case None
    with Cons show ?thesis by (simp add: List.map_filter_simps)
  next
    case (Some kv)
    obtain k v where kv: "kv = (k, v)" by (cases kv)
    have d: "distinct (map fst (setitem props k v))"
      using Cons.prems by (rule setitem_distinct)
    show ?thesis
      using Cons.IH[OF d] Some kv
      by (auto simp: List.map_filter_simps setitem_keys remdups_skip_seen)
  qed
qed

lemma parse_loop_values:
  "map_of (parse_loop props ls) = map_of props ++ map_of (rev (List.map_filter parse_line ls))"
proof (induction ls arbitrary: props)
  case Nil
  then show ?case by (simp add: List.map_filter_simps)
next
  case (Cons l ls)
  show ?case
  proof (cases "parse_line l")
    case None
    with Cons show ?thesis by (simp add: List.map_filter_simps)
  next
    case (Some kv)
    obtain k v where kv: "kv = (k, v)" by (cases kv)
    have "(map_of props)(k \<mapsto> v) = map_of props ++ [k \<mapsto> v]" by simp
    then show ?thesis
      using Cons.IH[of "setitem props k v"] Some kv
      by (simp add: List.map_filter_simps map_of_setitem del: map_add_upd)
  qed
qed


section \<open>The classifier\<close>

text \<open>
  C2. For every logical line that is not empty and does not start with \<open>#\<close> or \<open>!\<close>,
  \<open>parse_line\<close> splits at the leftmost \<open>=\<close> or \<open>:\<close> that is not immediately preceded
  by a backslash: the key is the normalized text before that character, the value the
  normalized text after it. An escaped separator is never chosen: the line \<^verbatim>\<open>a:b=c\<close>
  gives the key \<^verbatim>\<open>a\<close> and the value \<^verbatim>\<open>b=c\<close>, the line \<^verbatim>\<open>a\:b=c\<close> gives the key
  \<^verbatim>\<open>a:b\<close> and the value \<^verbatim>\<open>c\<close>.
\<close>

theorem parse_line_explicit_separator:
  "(line \<noteq> [] \<and> \<not> startswith line (CHR ''#'') \<and> \<not> startswith line (CHR ''!'') \<and>
    unescaped_sep line p \<and> (\<forall>j<p. \<not> unescaped_sep line j)
    \<longrightarrow> parse_line line =
          Some (normalize_atom (take p line), normalize_atom (drop (Suc p) line)))
   \<and> parse_line ''a:b=c'' = Some (''a'', ''b=c'')
   \<and> parse_line [CHR ''a'', CHR 0x5C, CHR '':'', CHR ''b'', CHR ''='', CHR ''c'']
       = Some (''a:b'', ''c'')"
proof (intro conjI impI)
  assume a: "line \<noteq> [] \<and> \<not> startswith line (CHR ''#'') \<and> \<not> startswith line (CHR ''!'') \<and>
    unescaped_sep line p \<and> (\<forall>j<p. \<not> unescaped_sep line j)"
  then have "EXPLICIT_KV_SEP_search line = Some p"
    by (simp add: search_first)
  with a show "parse_line line =
      Some (normalize_atom (take p line), normalize_atom (drop (Suc p) line))"
    by (simp add: parse_line_def)
next
  show "parse_line ''a:b=c'' = Some (''a'', ''b=c'')"
    by code_simp
next
  show "parse_line [CHR ''a'', CHR 0x5C, CHR '':'', CHR ''b'', CHR ''='', CHR ''c'']
       = Some (''a:b'', ''c'')"
    by code_simp
qed

text \<open>
  The line \<^verbatim>\<open>k\=1:v\<close>: the \<open>=\<close> at index 2 is escaped, the \<open>:\<close> at index 4 is the
  leftmost unescaped separator.
\<close>

theorem parse_line_explicit_separator_witness:
  "parse_line [CHR ''k'', CHR 0x5C, CHR ''='', CHR ''1'', CHR '':'', CHR ''v'']
     = Some (normalize_atom (take 4 [CHR ''k'', CHR 0x5C, CHR ''='', CHR ''1'', CHR '':'', CHR ''v'']),
             normalize_atom (drop (Suc 4) [CHR ''k'', CHR 0x5C, CHR ''='', CHR ''1'', CHR '':'', CHR ''v'']))
   \<and> parse_line [CHR ''k'', CHR 0x5C, CHR ''='', CHR ''1'', CHR '':'', CHR ''v'']
     = Some (''k=1'', ''v'')"
proof -
  let ?l = "[CHR ''k'', CHR 0x5C, CHR ''='', CHR ''1'', CHR '':'', CHR ''v'']"
  have 1: "?l \<noteq> [] \<and> \<not> startswith ?l (CHR ''#'') \<and> \<not> startswith ?l (CHR ''!'')"
    by (simp add: startswith_def)
  have 2: "unescaped_sep ?l 4"
    by (simp add: unescaped_sep_def backslash_def)
  have 3: "\<forall>j<4. \<not> unescaped_sep ?l j"
  proof (intro allI impI)
    fix j :: nat
    assume "j < 4"
    then have "j = 0 \<or> j = 1 \<or> j = 2 \<or> j = 3" by arith
    then show "\<not> unescaped_sep ?l j"
      by (auto simp: unescaped_sep_def backslash_def)
  qed
  from 1 2 3 have h: "?l \<noteq> [] \<and> \<not> startswith ?l (CHR ''#'') \<and> \<not> startswith ?l (CHR ''!'') \<and>
    unescaped_sep ?l 4 \<and> (\<forall>j<4. \<not> unescaped_sep ?l j)"
    by blast
  have g: "parse_line ?l = Some (normalize_atom (take 4 ?l), normalize_atom (drop (Suc 4) ?l))"
    by (rule mp[OF conjunct1[OF parse_line_explicit_separator[of ?l 4]] h])
  have e: "parse_line ?l = Some (''k=1'', ''v'')"
    by code_simp
  from g e show ?thesis by (rule conjI)
qed

text \<open>
  C4. For every logical line that is not empty, is no comment and holds no unescaped
  \<open>=\<close> or \<open>:\<close>, \<open>parse_line\<close> splits at the first space character: the key is the
  normalized text before the space, the value the normalized text from the space on
  (\<^verbatim>\<open>foo bar\<close> gives the key \<^verbatim>\<open>foo\<close> and the value \<^verbatim>\<open>bar\<close>). When the line holds
  no space either, the whole normalized line is the key and the value is empty.
\<close>

theorem parse_line_space_fallback:
  "(line \<noteq> [] \<and> \<not> startswith line (CHR ''#'') \<and> \<not> startswith line (CHR ''!'') \<and>
    (\<forall>j. \<not> unescaped_sep line j)
    \<longrightarrow> (p < length line \<and> line ! p = CHR '' '' \<and> (\<forall>j<p. line ! j \<noteq> CHR '' '')
          \<longrightarrow> parse_line line =
                Some (normalize_atom (take p line), normalize_atom (drop p line)))
       \<and> (CHR '' '' \<notin> set line \<longrightarrow> parse_line line = Some (normalize_atom line, [])))
   \<and> parse_line ''foo bar'' = Some (''foo'', ''bar'')"
proof (intro conjI impI)
  assume a: "line \<noteq> [] \<and> \<not> startswith line (CHR ''#'') \<and> \<not> startswith line (CHR ''!'') \<and>
    (\<forall>j. \<not> unescaped_sep line j)"
  then have s: "EXPLICIT_KV_SEP_search line = None"
    by (simp add: search_None)
  {
    assume b: "p < length line \<and> line ! p = CHR '' '' \<and> (\<forall>j<p. line ! j \<noteq> CHR '' '')"
    then have "str_find line (CHR '' '') = int p"
      using find_from_first[of p line "CHR '' ''" 0] by (simp add: str_find_def)
    with a s show "parse_line line =
        Some (normalize_atom (take p line), normalize_atom (drop p line))"
      by (simp add: parse_line_def)
  }
  {
    assume "CHR '' '' \<notin> set line"
    then have "str_find line (CHR '' '') = - 1"
      by (simp add: str_find_def find_from_absent)
    with a s show "parse_line line = Some (normalize_atom line, [])"
      by (simp add: parse_line_def)
  }
next
  show "parse_line ''foo bar'' = Some (''foo'', ''bar'')"
    by code_simp
qed

text \<open>
  The lines \<^verbatim>\<open>a\=b  c d\<close> (its only \<open>=\<close> is escaped, its first space is at index 4)
  and \<^verbatim>\<open>a\=b\<close> (no space).
\<close>

theorem parse_line_space_fallback_witness:
  "parse_line [CHR ''a'', CHR 0x5C, CHR ''='', CHR ''b'', CHR '' '', CHR '' '', CHR ''c'', CHR '' '', CHR ''d'']
     = Some (normalize_atom (take 4 [CHR ''a'', CHR 0x5C, CHR ''='', CHR ''b'', CHR '' '', CHR '' '', CHR ''c'', CHR '' '', CHR ''d'']),
             normalize_atom (drop 4 [CHR ''a'', CHR 0x5C, CHR ''='', CHR ''b'', CHR '' '', CHR '' '', CHR ''c'', CHR '' '', CHR ''d'']))
   \<and> parse_line [CHR ''a'', CHR 0x5C, CHR ''='', CHR ''b'', CHR '' '', CHR '' '', CHR ''c'', CHR '' '', CHR ''d'']
     = Some (''a=b'', ''c d'')
   \<and> parse_line [CHR ''a'', CHR 0x5C, CHR ''='', CHR ''b'']
     = Some (normalize_atom [CHR ''a'', CHR 0x5C, CHR ''='', CHR ''b''], [])
   \<and> parse_line [CHR ''a'', CHR 0x5C, CHR ''='', CHR ''b''] = Some (''a=b'', [])"
proof -
  let ?l = "[CHR ''a'', CHR 0x5C, CHR ''='', CHR ''b'', CHR '' '', CHR '' '', CHR ''c'', CHR '' '', CHR ''d'']"
  let ?m = "[CHR ''a'', CHR 0x5C, CHR ''='', CHR ''b'']"
  have "EXPLICIT_KV_SEP_search ?l = None" by code_simp
  then have "\<forall>j. \<not> unescaped_sep ?l j" by (rule iffD1[OF search_None_iff])
  moreover have "?l \<noteq> [] \<and> \<not> startswith ?l (CHR ''#'') \<and> \<not> startswith ?l (CHR ''!'')"
    by (simp add: startswith_def)
  ultimately have hl: "?l \<noteq> [] \<and> \<not> startswith ?l (CHR ''#'') \<and> \<not> startswith ?l (CHR ''!'') \<and>
    (\<forall>j. \<not> unescaped_sep ?l j)"
    by blast
  have "\<forall>j<4. ?l ! j \<noteq> CHR '' ''"
  proof (intro allI impI)
    fix j :: nat
    assume "j < 4"
    then have "j = 0 \<or> j = 1 \<or> j = 2 \<or> j = 3" by arith
    then show "?l ! j \<noteq> CHR '' ''" by (auto simp: backslash_def)
  qed
  then have sl: "4 < length ?l \<and> ?l ! 4 = CHR '' '' \<and> (\<forall>j<4. ?l ! j \<noteq> CHR '' '')"
    by simp
  have "EXPLICIT_KV_SEP_search ?m = None" by code_simp
  then have "\<forall>j. \<not> unescaped_sep ?m j" by (rule iffD1[OF search_None_iff])
  moreover have "?m \<noteq> [] \<and> \<not> startswith ?m (CHR ''#'') \<and> \<not> startswith ?m (CHR ''!'')"
    by (simp add: startswith_def)
  ultimately have hm: "?m \<noteq> [] \<and> \<not> startswith ?m (CHR ''#'') \<and> \<not> startswith ?m (CHR ''!'') \<and>
    (\<forall>j. \<not> unescaped_sep ?m j)"
    by blast
  have sm: "CHR '' '' \<notin> set ?m" by simp
  have 1: "parse_line ?l = Some (normalize_atom (take 4 ?l), normalize_atom (drop 4 ?l))"
    by (rule mp[OF conjunct1[OF mp[OF conjunct1[OF parse_line_space_fallback[of ?l 4]] hl]] sl])
  have 2: "parse_line ?m = Some (normalize_atom ?m, [])"
    by (rule mp[OF conjunct2[OF mp[OF conjunct1[OF parse_line_space_fallback[of ?m 0]] hm]] sm])
  have 3: "parse_line ?l = Some (''a=b'', ''c d'')" by code_simp
  have 4: "parse_line ?m = Some (''a=b'', [])" by code_simp
  from 1 2 3 4 show ?thesis by blast
qed

section \<open>Joining continued lines\<close>

text \<open>
  C3, as amended. A physical line whose stripped form ends in a backslash is joined
  with the lines that follow it. When the continued lines \<open>cs\<close> leave something in the
  buffer (at least one of them holds more than its backslash), each of them
  contributes its stripped text without the trailing backslash, the closing line \<open>f\<close>
  keeps its leading whitespace and loses its trailing whitespace, and the
  concatenation is yielded as one logical line. \<open>pre\<close> is what comes before: nothing,
  or lines the last of which is not continued. The raw lines \<^verbatim>\<open>a=1\\<close> and \<^verbatim>\<open>2\<close>
  load to the key \<^verbatim>\<open>a\<close> with the value \<^verbatim>\<open>12\<close>.
\<close>

theorem coalesce_lines_join:
  "((pre = [] \<or> \<not> endswith (strip (last pre)) backslash) \<and>
    (\<forall>c\<in>set cs. endswith (strip c) backslash) \<and>
    \<not> endswith (strip f) backslash \<and>
    concat (map (\<lambda>c. butlast (strip c)) cs) \<noteq> []
    \<longrightarrow> coalesce_lines (pre @ cs @ f # rest) =
          coalesce_lines pre @
          (concat (map (\<lambda>c. butlast (strip c)) cs) @ rstrip f) # coalesce_lines rest)
   \<and> load (text_source [CHR ''a'', CHR ''='', CHR ''1'', CHR 0x5C, CHR 0x0A, CHR ''2''])
       = Inr [(''a'', ''12'')]"
proof (intro conjI impI)
  assume a: "(pre = [] \<or> \<not> endswith (strip (last pre)) backslash) \<and>
    (\<forall>c\<in>set cs. endswith (strip c) backslash) \<and>
    \<not> endswith (strip f) backslash \<and>
    concat (map (\<lambda>c. butlast (strip c)) cs) \<noteq> []"
  let ?b = "concat (map (\<lambda>c. butlast (strip c)) cs)"
  from a have "coalesce_from [] (cs @ f # rest) = coalesce_from ?b (f # rest)"
    using coalesce_from_continuations[of cs "[]" "f # rest"] by simp
  also from a have "\<dots> = (?b @ rstrip f) # coalesce_from [] rest"
    by simp
  finally have j: "coalesce_from [] (cs @ f # rest) = (?b @ rstrip f) # coalesce_from [] rest" .
  show "coalesce_lines (pre @ cs @ f # rest) =
          coalesce_lines pre @ (?b @ rstrip f) # coalesce_lines rest"
  proof (cases "pre = []")
    case True
    with j show ?thesis by (simp add: coalesce_lines_def)
  next
    case False
    with a have "\<not> endswith (strip (last pre)) backslash" by simp
    from coalesce_from_append[OF False this, of "[]" "cs @ f # rest"] j
    show ?thesis by (simp add: coalesce_lines_def)
  qed
next
  show "load (text_source [CHR ''a'', CHR ''='', CHR ''1'', CHR 0x5C, CHR 0x0A, CHR ''2''])
       = Inr [(''a'', ''12'')]"
    by code_simp
qed

text \<open>
  After the line \<^verbatim>\<open>x=y\<close>, the lines \<^verbatim>\<open> k \\<close> and \<^verbatim>\<open>  1\ \<close> are closed by
  \<^verbatim>\<open>  v \<close>; the line \<^verbatim>\<open>z\<close> follows.
\<close>

theorem coalesce_lines_join_witness:
  "coalesce_lines
     ([''x=y''] @ [[CHR '' '', CHR ''k'', CHR '' '', CHR 0x5C],
                   [CHR '' '', CHR '' '', CHR ''1'', CHR 0x5C, CHR '' '']] @ ''  v '' # [''z''])
   = coalesce_lines [''x=y''] @
       (concat (map (\<lambda>c. butlast (strip c))
          [[CHR '' '', CHR ''k'', CHR '' '', CHR 0x5C],
           [CHR '' '', CHR '' '', CHR ''1'', CHR 0x5C, CHR '' '']]) @ rstrip ''  v '')
       # coalesce_lines [''z'']
   \<and> coalesce_lines
     ([''x=y''] @ [[CHR '' '', CHR ''k'', CHR '' '', CHR 0x5C],
                   [CHR '' '', CHR '' '', CHR ''1'', CHR 0x5C, CHR '' '']] @ ''  v '' # [''z''])
   = [''x=y'', ''k 1  v'', ''z'']"
proof -
  let ?cs = "[[CHR '' '', CHR ''k'', CHR '' '', CHR 0x5C],
              [CHR '' '', CHR '' '', CHR ''1'', CHR 0x5C, CHR '' '']]"
  have h: "([''x=y''] = [] \<or> \<not> endswith (strip (last [''x=y''])) backslash) \<and>
    (\<forall>c\<in>set ?cs. endswith (strip c) backslash) \<and>
    \<not> endswith (strip ''  v '') backslash \<and>
    concat (map (\<lambda>c. butlast (strip c)) ?cs) \<noteq> []"
    by code_simp
  have g: "coalesce_lines ([''x=y''] @ ?cs @ ''  v '' # [''z'']) =
      coalesce_lines [''x=y''] @
      (concat (map (\<lambda>c. butlast (strip c)) ?cs) @ rstrip ''  v '') # coalesce_lines [''z'']"
    by (rule mp[OF conjunct1[OF coalesce_lines_join[of "[''x=y'']" ?cs "''  v ''" "[''z'']"]] h])
  have e: "coalesce_lines ([''x=y''] @ ?cs @ ''  v '' # [''z'']) = [''x=y'', ''k 1  v'', ''z'']"
    by code_simp
  from g e show ?thesis by (rule conjI)
qed

text \<open>
  C3 as the specification states it also covers continued lines that leave the buffer
  empty: there the closing line does not keep its leading whitespace. The lines
  \<^verbatim>\<open>\\<close> and \<^verbatim>\<open> x\<close> yield \<^verbatim>\<open>x\<close>, not \<^verbatim>\<open> x\<close>.
\<close>

theorem coalesce_lines_join_counterexample:
  "endswith (strip [CHR 0x5C]) backslash \<and> \<not> endswith (strip '' x'') backslash \<and>
   coalesce_lines [[CHR 0x5C], '' x''] \<noteq> [butlast (strip [CHR 0x5C]) @ rstrip '' x'']"
  by code_simp

text \<open>
  C6. When the input ends while a continuation is pending (every line of \<open>cs\<close> is
  continued and no other line follows), the buffer is dropped: whatever it holds,
  nothing more is yielded, and the lines \<open>cs\<close> add no entry to the loaded map.
\<close>

theorem coalesce_lines_pending_discarded:
  "(\<forall>c\<in>set cs. endswith (strip c) backslash) \<longrightarrow>
     coalesce_from buffer cs = [] \<and>
     coalesce_lines (ls @ cs) = coalesce_lines ls \<and>
     parse (ls @ cs) = parse ls"
  by (simp add: coalesce_from_pending coalesce_from_append_pending coalesce_lines_def parse_def)

text \<open>The line \<^verbatim>\<open>a=1\<close> followed by \<^verbatim>\<open>b=2\\<close> and \<^verbatim>\<open> c=3 \ \<close>, where the input ends.\<close>

theorem coalesce_lines_pending_discarded_witness:
  "coalesce_from ''b=2'' [[CHR '' '', CHR ''c'', CHR ''='', CHR ''3'', CHR '' '', CHR 0x5C, CHR '' '']] = [] \<and>
   coalesce_lines ([''a=1''] @
     [[CHR ''b'', CHR ''='', CHR ''2'', CHR 0x5C],
      [CHR '' '', CHR ''c'', CHR ''='', CHR ''3'', CHR '' '', CHR 0x5C, CHR '' '']]) = [''a=1''] \<and>
   parse ([''a=1''] @
     [[CHR ''b'', CHR ''='', CHR ''2'', CHR 0x5C],
      [CHR '' '', CHR ''c'', CHR ''='', CHR ''3'', CHR '' '', CHR 0x5C, CHR '' '']]) = [(''a'', ''1'')]"
proof -
  let ?c1 = "[CHR ''b'', CHR ''='', CHR ''2'', CHR 0x5C]"
  let ?c2 = "[CHR '' '', CHR ''c'', CHR ''='', CHR ''3'', CHR '' '', CHR 0x5C, CHR '' '']"
  have h1: "\<forall>c\<in>set [?c2]. endswith (strip c) backslash" by code_simp
  have h2: "\<forall>c\<in>set [?c1, ?c2]. endswith (strip c) backslash" by code_simp
  have 1: "coalesce_from ''b=2'' [?c2] = []"
    using mp[OF coalesce_lines_pending_discarded[of "[?c2]" "''b=2''" "[]"] h1] by (rule conjunct1)
  have 2: "coalesce_lines ([''a=1''] @ [?c1, ?c2]) = coalesce_lines [''a=1''] \<and>
           parse ([''a=1''] @ [?c1, ?c2]) = parse [''a=1'']"
    using mp[OF coalesce_lines_pending_discarded[of "[?c1, ?c2]" "[]" "[''a=1'']"] h2]
    by (rule conjunct2)
  have 3: "coalesce_lines [''a=1''] = [''a=1'']" by code_simp
  have 4: "parse [''a=1''] = [(''a'', ''1'')]" by code_simp
  from 1 2 3 4 show ?thesis by simp
qed

text \<open>
  C10. A physical line that holds only whitespace and one trailing backslash, read
  while the buffer is empty, leaves the buffer empty: the line has no effect, and the
  next physical line, if not continued itself, is taken as a fresh line, stripped on
  both sides, so its leading whitespace is not kept.
\<close>

theorem coalesce_lines_lone_backslash:
  "strip c = [backslash] \<longrightarrow>
     coalesce_from [] (c # lines) = coalesce_from [] lines \<and>
     (\<not> endswith (strip f) backslash \<longrightarrow>
        coalesce_lines (c # f # rest) = strip f # coalesce_lines rest)"
  by (simp add: coalesce_lines_def endswith_def)

text \<open>The line \<^verbatim>\<open> \ \<close> followed by \<^verbatim>\<open>  k v \<close>.\<close>

theorem coalesce_lines_lone_backslash_witness:
  "strip [CHR '' '', CHR 0x5C, CHR '' ''] = [backslash] \<and>
   \<not> endswith (strip ''  k v '') backslash \<and>
   coalesce_from [] ([CHR '' '', CHR 0x5C, CHR '' ''] # [''  k v '', ''z'']) =
     coalesce_from [] [''  k v '', ''z''] \<and>
   coalesce_lines ([CHR '' '', CHR 0x5C, CHR '' ''] # ''  k v '' # [''z'']) =
     strip ''  k v '' # coalesce_lines [''z''] \<and>
   strip ''  k v '' = ''k v''"
proof -
  let ?c = "[CHR '' '', CHR 0x5C, CHR '' '']"
  have h: "strip ?c = [backslash]" by code_simp
  have f: "\<not> endswith (strip ''  k v '') backslash" by code_simp
  have 1: "coalesce_from [] (?c # [''  k v '', ''z'']) = coalesce_from [] [''  k v '', ''z'']"
    using mp[OF coalesce_lines_lone_backslash[of ?c "[''  k v '', ''z'']" "''  k v ''" "[''z'']"] h]
    by (rule conjunct1)
  have 2: "coalesce_lines (?c # ''  k v '' # [''z'']) = strip ''  k v '' # coalesce_lines [''z'']"
    by (rule mp[OF conjunct2[OF mp[OF coalesce_lines_lone_backslash[of ?c "[''  k v '', ''z'']" "''  k v ''" "[''z'']"] h]] f])
  have 3: "strip ''  k v '' = ''k v''" by code_simp
  from h f 1 2 3 show ?thesis by blast
qed

section \<open>The loaded map\<close>

text \<open>
  C7. The map built by \<open>load\<close> holds at most one entry per key at every moment of the
  loading (after any number \<open>n\<close> of logical lines). When lines of one load give the
  same key, the value of the last of them is the one kept, and the key stays where its
  first line put it: the keys come in the order of their first appearance, and storing
  under a key that is present leaves the order of the keys as it is. Loading
  \<^verbatim>\<open>a=1\<close>, \<^verbatim>\<open>a=2\<close> gives a map in which \<^verbatim>\<open>a\<close> is \<^verbatim>\<open>2\<close>.
\<close>

theorem load_unique_keys:
  "(\<forall>n. distinct (map fst (parse_loop [] (take n (coalesce_lines lines)))))
   \<and> distinct (map fst (parse lines))
   \<and> map fst (parse lines) =
       rev (remdups (rev (map fst (List.map_filter parse_line (coalesce_lines lines)))))
   \<and> map_of (parse lines) = map_of (rev (List.map_filter parse_line (coalesce_lines lines)))
   \<and> (key \<in> set (map fst props) \<longrightarrow> map fst (setitem props key val) = map fst props)
   \<and> map_of (setitem props key val) key = Some val
   \<and> load (text_source
        [CHR ''a'', CHR ''='', CHR ''1'', CHR 0x0A, CHR ''a'', CHR ''='', CHR ''2'', CHR 0x0A])
       = Inr [(''a'', ''2'')]"
proof (intro conjI allI)
  show "load (text_source
        [CHR ''a'', CHR ''='', CHR ''1'', CHR 0x0A, CHR ''a'', CHR ''='', CHR ''2'', CHR 0x0A])
       = Inr [(''a'', ''2'')]"
    by code_simp
qed (simp_all add: parse_def parse_loop_distinct parse_loop_keys parse_loop_values
       setitem_keys map_of_setitem)

text \<open>
  The lines \<^verbatim>\<open>a=1\<close>, \<^verbatim>\<open>b=2\<close>, \<^verbatim>\<open>a=3\<close>: the key \<^verbatim>\<open>a\<close> stays first and gets the
  value \<^verbatim>\<open>3\<close>.
\<close>

theorem load_unique_keys_witness:
  "''a'' \<in> set (map fst [(''a'', ''1''), (''b'', ''2'')]) \<and>
   map fst (setitem [(''a'', ''1''), (''b'', ''2'')] ''a'' ''3'') =
     map fst [(''a'', ''1''), (''b'', ''2'')] \<and>
   map_of (setitem [(''a'', ''1''), (''b'', ''2'')] ''a'' ''3'') ''a'' = Some ''3'' \<and>
   map fst (parse [''a=1'', ''b=2'', ''a=3'']) =
     rev (remdups (rev (map fst
       (List.map_filter parse_line (coalesce_lines [''a=1'', ''b=2'', ''a=3''])))))  \<and>
   parse [''a=1'', ''b=2'', ''a=3''] = [(''a'', ''3''), (''b'', ''2'')]"
proof -
  let ?p = "[(''a'', ''1''), (''b'', ''2'')]"
  let ?ls = "[''a=1'', ''b=2'', ''a=3'']"
  note t = load_unique_keys[of ?ls "''a''" ?p "''3''"]
  have h: "''a'' \<in> set (map fst ?p)" by simp
  have 1: "map fst (setitem ?p ''a'' ''3'') = map fst ?p"
    using t h by blast
  have 2: "map_of (setitem ?p ''a'' ''3'') ''a'' = Some ''3''"
    using t by blast
  have 3: "map fst (parse ?ls) =
     rev (remdups (rev (map fst (List.map_filter parse_line (coalesce_lines ?ls)))))"
    using t by blast
  have 4: "parse ?ls = [(''a'', ''3''), (''b'', ''2'')]" by code_simp
  from h 1 2 3 4 show ?thesis by blast
qed


section \<open>Dumping\<close>

text \<open>
  C5. \<open>dump\<close> writes, for each entry of the map and in the order of the map, exactly
  one line: the escaped key, \<open>=\<close>, the escaped value and a line feed; escaping puts a
  backslash before every \<open>=\<close>, \<open>:\<close> and whitespace character of the token. To a path
  the same lines are written between opening and closing the file. Dumping the map
  with the one entry \<^verbatim>\<open>a b\<close>, \<^verbatim>\<open>c=d\<close> writes the line \<^verbatim>\<open>a\ b=c\=d\<close>.
\<close>

theorem dump_escaped_lines:
  "(has_write output \<and> write_callable output \<longrightarrow>
      dump props output =
        (map (\<lambda>(k, v). Write (escape k @ ''='' @ escape v @ [CHR 0x0A])) props, None))
   \<and> (\<not> (has_write output \<and> write_callable output) \<and> dst_is_string output \<longrightarrow>
      dump props output =
        (Open (dst_string output) ''w+a'' #
           map (\<lambda>(k, v). Write (escape k @ ''='' @ escape v @ [CHR 0x0A])) props @ [Close],
         None))
   \<and> escape token =
       concat (map (\<lambda>c. if c = CHR ''='' \<or> c = CHR '':'' \<or> isspace c then [backslash, c] else [c])
                 token)
   \<and> dump_to_string [(''a b'', ''c=d'')] =
       [CHR ''a'', CHR 0x5C, CHR '' '', CHR ''b'', CHR ''='', CHR ''c'', CHR 0x5C, CHR ''='',
        CHR ''d'', CHR 0x0A]"
proof -
  have w: "write_props props =
      map (\<lambda>(k, v). Write (escape k @ ''='' @ escape v @ [CHR 0x0A])) props"
    by (induction props) auto
  have e: "escape token =
      concat (map (\<lambda>c. if c = CHR ''='' \<or> c = CHR '':'' \<or> isspace c then [backslash, c] else [c])
                token)"
    unfolding escape_def by (induction token) (simp_all add: sep_or_space_def)
  have x: "dump_to_string [(''a b'', ''c=d'')] =
       [CHR ''a'', CHR 0x5C, CHR '' '', CHR ''b'', CHR ''='', CHR ''c'', CHR 0x5C, CHR ''='',
        CHR ''d'', CHR 0x0A]"
    by code_simp
  from w e x show ?thesis by (simp add: dump_def)
qed

text \<open>
  The map with the entries \<^verbatim>\<open>k:1\<close>, \<^verbatim>\<open>v\<close> and \<^verbatim>\<open>x\<close>, \<^verbatim>\<open>y z\<close>, dumped to a writable
  object and to the path \<^verbatim>\<open>out.properties\<close>.
\<close>

theorem dump_escaped_lines_witness:
  "has_write string_io \<and> write_callable string_io \<and>
   dump [(''k:1'', ''v''), (''x'', ''y z'')] string_io =
     ([Write [CHR ''k'', CHR 0x5C, CHR '':'', CHR ''1'', CHR ''='', CHR ''v'', CHR 0x0A],
       Write [CHR ''x'', CHR ''='', CHR ''y'', CHR 0x5C, CHR '' '', CHR ''z'', CHR 0x0A]], None) \<and>
   dump [(''k:1'', ''v''), (''x'', ''y z'')]
     \<lparr>has_write = True, write_callable = False, dst_is_string = True,
      dst_string = ''out.properties''\<rparr> =
     ([Open ''out.properties'' ''w+a'',
       Write [CHR ''k'', CHR 0x5C, CHR '':'', CHR ''1'', CHR ''='', CHR ''v'', CHR 0x0A],
       Write [CHR ''x'', CHR ''='', CHR ''y'', CHR 0x5C, CHR '' '', CHR ''z'', CHR 0x0A],
       Close], None)"
proof -
  let ?m = "[(''k:1'', ''v''), (''x'', ''y z'')]"
  let ?d = "\<lparr>has_write = True, write_callable = False, dst_is_string = True,
      dst_string = ''out.properties''\<rparr>"
  let ?w = "map (\<lambda>(k, v). Write (escape k @ ''='' @ escape v @ [CHR 0x0A])) ?m"
  have h1: "has_write string_io \<and> write_callable string_io"
    by (simp add: string_io_def)
  have h2: "\<not> (has_write ?d \<and> write_callable ?d) \<and> dst_is_string ?d"
    by simp
  have 1: "dump ?m string_io = (?w, None)"
    by (rule mp[OF conjunct1[OF dump_escaped_lines[of string_io ?m "[]"]] h1])
  have 2: "dump ?m ?d = (Open (dst_string ?d) ''w+a'' # ?w @ [Close], None)"
    by (rule mp[OF conjunct1[OF conjunct2[OF dump_escaped_lines[of ?d ?m "[]"]]] h2])
  have 3: "?w = [Write [CHR ''k'', CHR 0x5C, CHR '':'', CHR ''1'', CHR ''='', CHR ''v'', CHR 0x0A],
       Write [CHR ''x'', CHR ''='', CHR ''y'', CHR 0x5C, CHR '' '', CHR ''z'', CHR 0x0A]]"
    by code_simp
  from h1 1 2 3 show ?thesis by simp
qed


section \<open>Errors\<close>

text \<open>
  C8. \<open>load\<close> raises the type error exactly when its argument has no callable
  \<^verbatim>\<open>read\<close> and is no string; \<open>dump\<close> raises it exactly when its destination has no
  callable \<^verbatim>\<open>write\<close> and is no string, and then nothing has been opened or written.
  The text itself never raises anything: an argument of an accepted shape always
  loads to a map, a destination of an accepted shape is written without error, and
  every logical line is a blank line, a comment (both give no pair) or a pair.
\<close>

theorem load_dump_type_error:
  "(load data = Inl TypeError \<longleftrightarrow>
      \<not> (has_read data \<and> read_callable data) \<and> \<not> src_is_string data)
   \<and> (snd (dump props output) = Some TypeError \<longleftrightarrow>
      \<not> (has_write output \<and> write_callable output) \<and> \<not> dst_is_string output)
   \<and> (snd (dump props output) = Some TypeError \<longrightarrow> fst (dump props output) = [])
   \<and> (has_read data \<and> read_callable data \<or> src_is_string data \<longrightarrow>
        (\<exists>m. load data = Inr m))
   \<and> (has_write output \<and> write_callable output \<or> dst_is_string output \<longrightarrow>
        snd (dump props output) = None)
   \<and> (line = [] \<and> parse_line line = None
      \<or> (startswith line (CHR ''#'') \<or> startswith line (CHR ''!'')) \<and> parse_line line = None
      \<or> (\<exists>k v. parse_line line = Some (k, v)))"
proof (intro conjI)
  show "line = [] \<and> parse_line line = None
      \<or> (startswith line (CHR ''#'') \<or> startswith line (CHR ''!'')) \<and> parse_line line = None
      \<or> (\<exists>k v. parse_line line = Some (k, v))"
    by (cases "EXPLICIT_KV_SEP_search line") (auto simp: parse_line_def Let_def)
qed (auto simp: load_def dump_def)

text \<open>
  An integer given to \<open>load\<close> and to \<open>dump\<close> (no \<^verbatim>\<open>read\<close>, no \<^verbatim>\<open>write\<close>, no string),
  and an object whose \<^verbatim>\<open>read\<close> attribute is not callable.
\<close>

theorem load_dump_type_error_witness:
  "load \<lparr>has_read = False, read_callable = False, read_result = [],
         src_is_string = False, src_string = []\<rparr> = Inl TypeError \<and>
   load \<lparr>has_read = True, read_callable = False, read_result = ''a=1'',
         src_is_string = False, src_string = []\<rparr> = Inl TypeError \<and>
   snd (dump [(''a'', ''1'')]
         \<lparr>has_write = False, write_callable = False, dst_is_string = False,
          dst_string = []\<rparr>) = Some TypeError \<and>
   fst (dump [(''a'', ''1'')]
         \<lparr>has_write = False, write_callable = False, dst_is_string = False,
          dst_string = []\<rparr>) = [] \<and>
   (\<exists>m. load (text_source ''=:# !'') = Inr m) \<and>
   snd (dump [(''a'', ''1'')] string_io) = None"
proof -
  let ?i = "\<lparr>has_read = False, read_callable = False, read_result = [],
         src_is_string = False, src_string = []\<rparr>"
  let ?r = "\<lparr>has_read = True, read_callable = False, read_result = ''a=1'',
         src_is_string = False, src_string = []\<rparr>"
  let ?o = "\<lparr>has_write = False, write_callable = False, dst_is_string = False,
          dst_string = []\<rparr>"
  let ?m = "[(''a'', ''1'')]"
  have hi: "\<not> (has_read ?i \<and> read_callable ?i) \<and> \<not> src_is_string ?i" by simp
  have hr: "\<not> (has_read ?r \<and> read_callable ?r) \<and> \<not> src_is_string ?r" by simp
  have ho: "\<not> (has_write ?o \<and> write_callable ?o) \<and> \<not> dst_is_string ?o" by simp
  have ht: "has_read (text_source ''=:# !'') \<and> read_callable (text_source ''=:# !'')
            \<or> src_is_string (text_source ''=:# !'')"
    by (simp add: text_source_def)
  have 1: "load ?i = Inl TypeError"
    by (rule iffD2[OF conjunct1[OF load_dump_type_error[of ?i ?m ?o "[]"]] hi])
  have 2: "load ?r = Inl TypeError"
    by (rule iffD2[OF conjunct1[OF load_dump_type_error[of ?r ?m ?o "[]"]] hr])
  have 3: "snd (dump ?m ?o) = Some TypeError"
    by (rule iffD2[OF conjunct1[OF conjunct2[OF load_dump_type_error[of ?i ?m ?o "[]"]]] ho])
  have 4: "fst (dump ?m ?o) = []"
    using load_dump_type_error[of ?i ?m ?o "[]"] 3 by blast
  have 5: "\<exists>m. load (text_source ''=:# !'') = Inr m"
    using load_dump_type_error[of "text_source ''=:# !''" ?m ?o "[]"] ht by blast
  have hs: "has_write string_io \<and> write_callable string_io \<or> dst_is_string string_io"
    by (simp add: string_io_def)
  have 6: "snd (dump ?m string_io) = None"
    using load_dump_type_error[of ?i ?m string_io "[]"] hs by blast
  from 1 2 3 4 5 6 show ?thesis by blast
qed

section \<open>Dumping and loading again\<close>

lemma backslash_not_sep_or_space: "\<not> sep_or_space backslash"
  by (simp add: sep_or_space_def isspace_def backslash_def)

lemma sub_escape_hd: "sub_escape t = d # r \<Longrightarrow> \<not> sep_or_space d"
  by (cases t) (auto simp: backslash_not_sep_or_space split: if_splits)

lemma sub_unescape_plain:
  "(\<And>d r. s = d # r \<Longrightarrow> \<not> (c = backslash \<and> sep_or_space d)) \<Longrightarrow>
   sub_unescape (c # s) = c # sub_unescape s"
  by (cases s) auto

lemma sub_unescape_escape: "sub_unescape (sub_escape t) = t"
proof (induction t)
  case Nil
  show ?case by simp
next
  case (Cons c t)
  show ?case
  proof (cases "sep_or_space c")
    case True
    with Cons show ?thesis by simp
  next
    case False
    have "sub_unescape (c # sub_escape t) = c # sub_unescape (sub_escape t)"
      by (rule sub_unescape_plain) (auto dest: sub_escape_hd)
    with False Cons show ?thesis by simp
  qed
qed

text \<open>
  C1. The specification asks that loading the text of a dumped map gives the map
  back, the escaping of \<open>dump\<close> being undone by the normalization of \<open>load\<close>. The
  code is written for it: the substitution of \<open>escape\<close> and the substitution inside
  \<open>normalize\<close> have the same character class and are inverse to each other on every
  token, and a blank at the start or inside a token does come back. But \<open>normalize\<close>
  strips its text before it substitutes, so of the escaped blank that ends a token
  it strips the blank and keeps the backslash: the map with the key \<^verbatim>\<open>a \<close> (ending
  in a space) and the value \<^verbatim>\<open>c\<close> is dumped as the line \<^verbatim>\<open>a\ =c\<close> and loads with
  the key \<^verbatim>\<open>a\\<close>.
\<close>

theorem load_dump_trailing_blank:
  "sub_unescape (escape token) = token
   \<and> dump_to_string [(''a '', ''c'')] =
       [CHR ''a'', CHR 0x5C, CHR '' '', CHR ''='', CHR ''c'', CHR 0x0A]
   \<and> load (text_source (dump_to_string [(''a '', ''c'')])) = Inr [([CHR ''a'', CHR 0x5C], ''c'')]
   \<and> load (text_source (dump_to_string [(''a '', ''c'')])) \<noteq> Inr [(''a '', ''c'')]
   \<and> normalize_atom (escape ''a '') = [CHR ''a'', CHR 0x5C]
   \<and> normalize_atom (escape '' a b'') = '' a b''"
proof (intro conjI)
  show "sub_unescape (escape token) = token"
    by (simp add: escape_def sub_unescape_escape)
qed code_simp+

text \<open>
  The same slip on a value: the escaped blank that ends the value \<^verbatim>\<open>c \<close> leaves the
  stripped line ending in a backslash, the line is taken for a continued one, and
  its entry is dropped at the end of the input or run into the next entry.
\<close>

lemma load_dump_trailing_blank_value:
  "load (text_source (dump_to_string [(''a'', ''c '')])) = Inr []"
  "load (text_source (dump_to_string [(''a'', ''c ''), (''b'', ''d'')])) = Inr [(''a'', ''cb=d'')]"
  by code_simp+


section \<open>Dumping to a path\<close>

lemma write_props_until_None: "write_props_until None props = (write_props props, None)"
  by (induction props) auto

lemma write_props_until_Some:
  "write_props_until (Some n) props =
     (take n (write_props props), if n < length props then Some IOError else None)"
proof (induction props arbitrary: n)
  case Nil
  show ?case by simp
next
  case (Cons kv props)
  obtain k v where kv: "kv = (k, v)" by (cases kv)
  show ?case
  proof (cases n)
    case 0
    with kv show ?thesis by simp
  next
    case (Suc m)
    with kv Cons[of m] show ?thesis by simp
  qed
qed

lemma length_write_props: "length (write_props props) = length props"
  by (induction props) auto

text \<open>
  Whatever the writes do, the calls carried out are a first part of the lines of the
  map, and an error is raised exactly when a part is missing.
\<close>

lemma write_props_until_prefix:
  "\<exists>n. write_props_until budget props =
         (take n (write_props props), if n < length props then Some IOError else None)"
proof (cases budget)
  case None
  then have "write_props_until budget props =
      (take (length props) (write_props props),
       if length props < length props then Some IOError else None)"
    by (simp add: write_props_until_None length_write_props)
  then show ?thesis ..
next
  case (Some n)
  then have "write_props_until budget props =
      (take n (write_props props), if n < length props then Some IOError else None)"
    by (simp add: write_props_until_Some)
  then show ?thesis ..
qed

text \<open>
  The part of C9 that holds. Given a path, \<open>dump\<close> opens the file itself, and once
  \<^verbatim>\<open>open\<close> has returned the file is closed after the last call of \<^verbatim>\<open>write\<close>, also
  when that call raised: the handle lives for the write loop and no longer. When
  \<^verbatim>\<open>open\<close> raises, nothing was opened and nothing is written.
\<close>

lemma dump_with_runtime_closes:
  assumes "\<not> (has_write output \<and> write_callable output)" "dst_is_string output"
    and "open_mode rt ''w+a'' = Inr a"
  shows "\<exists>n. dump_with_runtime rt budget props output =
           (Open (dst_string output) ''w+a'' # take n (write_props props) @ [Close],
            if n < length props then Some (Inr IOError) else None)"
proof -
  obtain n where "write_props_until budget props =
      (take n (write_props props), if n < length props then Some IOError else None)"
    using write_props_until_prefix by blast
  with assms have "dump_with_runtime rt budget props output =
      (Open (dst_string output) ''w+a'' # take n (write_props props) @ [Close],
       if n < length props then Some (Inr IOError) else None)"
    by (simp add: dump_with_runtime_def)
  then show ?thesis ..
qed

lemma dump_with_runtime_refused:
  assumes "\<not> (has_write output \<and> write_callable output)" "dst_is_string output"
    and "open_mode rt ''w+a'' = Inl e"
  shows "dump_with_runtime rt budget props output = ([], Some (Inr e))"
  using assms by (auto simp: dump_with_runtime_def)

text \<open>
  Where \<^verbatim>\<open>open\<close> takes the mode string and no write raises, the calls are those of
  \<open>dump\<close> above.
\<close>

lemma dump_with_runtime_dump:
  assumes "open_mode rt ''w+a'' = Inr a"
  shows "dump_with_runtime rt None props output =
           (fst (dump props output), map_option Inl (snd (dump props output)))"
  using assms by (simp add: dump_with_runtime_def dump_def write_props_until_None)

text \<open>
  C9. The specification has \<open>dump\<close> open the file of a path for appending, creating
  it when it is missing, and close it on every way out. The code passes the mode
  string \<^verbatim>\<open>w+a\<close>, which names two accesses at once and is no mode of appending:
  Python 3 refuses it with \<^verbatim>\<open>ValueError\<close> before any file is opened, so that
  nothing is written, and Python 2 on the GNU C library reads it as \<^verbatim>\<open>w+\<close>, which
  truncates the file. The plain mode \<^verbatim>\<open>a\<close> is the appending one on both. Dumping
  the entries \<^verbatim>\<open>a\<close>, \<^verbatim>\<open>1\<close> and \<^verbatim>\<open>b\<close>, \<^verbatim>\<open>2\<close> to the path \<^verbatim>\<open>out.properties\<close>: on
  Python 3 no call is carried out; on Python 2 the file is opened, written and
  closed, and closed as well when the second write raises.
\<close>

theorem dump_path_mode:
  "open_mode Python3 ''w+a'' = Inl ValueError
   \<and> open_mode Python2 ''w+a'' = Inr (Truncating, True)
   \<and> open_mode Python3 ''a'' = Inr (Appending, False)
   \<and> open_mode Python2 ''a'' = Inr (Appending, False)
   \<and> dump_with_runtime Python3 None [(''a'', ''1''), (''b'', ''2'')]
       (path_destination ''out.properties'') = ([], Some (Inr ValueError))
   \<and> dump_with_runtime Python2 None [(''a'', ''1''), (''b'', ''2'')]
       (path_destination ''out.properties'') =
       ([Open ''out.properties'' ''w+a'',
         Write [CHR ''a'', CHR ''='', CHR ''1'', CHR 0x0A],
         Write [CHR ''b'', CHR ''='', CHR ''2'', CHR 0x0A],
         Close], None)
   \<and> dump_with_runtime Python2 (Some 1) [(''a'', ''1''), (''b'', ''2'')]
       (path_destination ''out.properties'') =
       ([Open ''out.properties'' ''w+a'',
         Write [CHR ''a'', CHR ''='', CHR ''1'', CHR 0x0A],
         Close], Some (Inr IOError))"
  by code_simp

end
